theory Spec2Isabelle
  imports Complex_Main "HOL-Library.AList"
begin

section \<open>Python dictionaries and lists, as the program uses them\<close>

text \<open>
  Keys and values are Python integers. A \<open>dict\<close> is an association list in insertion
  order: \<open>d.update\<close> overwrites a present key in place and appends an absent one
  (\<open>AList.update\<close>), \<open>d.pop(k)\<close> removes the entry of \<open>k\<close> (\<open>AList.delete\<close>) and
  raises \<open>KeyError\<close> when \<open>k\<close> is absent.
\<close>

type_synonym key = int
type_synonym val = int
type_synonym dict = "(key \<times> val) list"

datatype error =
    OverwriteNotAllowed key  \<comment> \<open>message: Overwrite not allowed. Key = <key> already assigned.\<close>
  | KeyError key             \<comment> \<open>\<open>dict.pop\<close> or \<open>dict[...]\<close> of an absent integer key\<close>
  | NameKeyError string      \<comment> \<open>\<open>__dict__[name]\<close> of an absent attribute name\<close>
  | AttributeError string    \<comment> \<open>the attribute that the object does not have\<close>
  | TypeError
  | ValueError
  | IllTyped                 \<comment> \<open>not Python's: see the calls on the Database itself\<close>

definition keys :: "dict \<Rightarrow> key list" where
  "keys d = map fst d"

definition dict_update :: "dict \<Rightarrow> dict \<Rightarrow> dict" where
  \<comment> \<open>\<open>d.update(values)\<close>\<close>
  "dict_update d values = fold (\<lambda>(k, v). AList.update k v) values d"

section \<open>Column\<close>

record Column =
  name :: string
  vals :: dict                  \<comment> \<open>\<open>self._vals\<close>\<close>
  transaction_marker :: bool
  trans_dict :: dict
  to_del :: "key list"

text \<open>
  A method call either returns or raises; in both cases the object is left in some state,
  which the outcome carries.
\<close>

datatype outcome = Returned Column | Raised error Column

fun state_of :: "outcome \<Rightarrow> Column" where
  "state_of (Returned c) = c"
| "state_of (Raised e c) = c"

fun raised :: "outcome \<Rightarrow> error option" where
  "raised (Returned c) = None"
| "raised (Raised e c) = Some e"

definition Column_init :: "string \<Rightarrow> Column" where
  "Column_init n =
     \<lparr>name = n, vals = [], transaction_marker = False, trans_dict = [], to_del = []\<rparr>"

definition getitem :: "Column \<Rightarrow> key \<Rightarrow> error + val" where
  \<comment> \<open>\<open>__getitem__\<close>: \<open>self._vals[key]\<close>\<close>
  "getitem c k = (case map_of (vals c) k of None \<Rightarrow> Inl (KeyError k) | Some v \<Rightarrow> Inr v)"

definition insert_col :: "Column \<Rightarrow> dict \<Rightarrow> outcome" where
  "insert_col c values =
     (case find (\<lambda>k. k \<in> set (keys (vals c))) (keys values) of
        Some k \<Rightarrow> Raised (OverwriteNotAllowed k) c
      | None \<Rightarrow>
          if transaction_marker c
          then Returned (c\<lparr>trans_dict := dict_update (trans_dict c) values\<rparr>)
          else Returned (c\<lparr>vals := dict_update (vals c) values\<rparr>))"

definition delete_staged :: "Column \<Rightarrow> key \<Rightarrow> Column" where
  \<comment> \<open>body of the loop of \<open>delete\<close> while a transaction is on\<close>
  "delete_staged c k =
     (if k \<in> set (keys (trans_dict c)) then c\<lparr>trans_dict := AList.delete k (trans_dict c)\<rparr>
      else if k \<in> set (keys (vals c)) then c\<lparr>to_del := to_del c @ [k]\<rparr>
      else c)"

definition delete_direct :: "Column \<Rightarrow> key \<Rightarrow> Column" where
  \<comment> \<open>body of the loop of \<open>delete\<close> while no transaction is on\<close>
  "delete_direct c k =
     (if k \<in> set (keys (vals c)) then c\<lparr>vals := AList.delete k (vals c)\<rparr> else c)"

definition delete :: "Column \<Rightarrow> key list \<Rightarrow> outcome" where
  "delete c ks =
     (if transaction_marker c then Returned (foldl delete_staged c ks)
      else Returned (foldl delete_direct c ks))"


definition transaction :: "Column \<Rightarrow> outcome" where
  "transaction c = Returned (c\<lparr>transaction_marker := True\<rparr>)"

definition rollback :: "Column \<Rightarrow> outcome" where
  "rollback c = Returned (c\<lparr>trans_dict := [], to_del := [], transaction_marker := False\<rparr>)"

fun pop_all :: "dict \<Rightarrow> key list \<Rightarrow> error option \<times> dict" where
  \<comment> \<open>\<open>for key in self.to_del: self._vals.pop(key)\<close>, with the dict as the failing pop left it\<close>
  "pop_all d [] = (None, d)"
| "pop_all d (k # ks) =
     (if k \<in> set (keys d) then pop_all (AList.delete k d) ks else (Some (KeyError k), d))"

definition commit :: "Column \<Rightarrow> outcome" where
  "commit c =
     (case pop_all (dict_update (vals c) (trans_dict c)) (to_del c) of
        (Some e, d) \<Rightarrow> Raised e (c\<lparr>vals := d\<rparr>)
      | (None, d) \<Rightarrow>
          Returned (c\<lparr>vals := d, trans_dict := [], to_del := [], transaction_marker := False\<rparr>))"

text \<open>A caller's sequence of method calls on one column; a raise does not end the sequence
  (the caller may catch it), and the column stays as the raising call left it. \<open>mean\<close>,
  \<open>__getitem__\<close> and \<open>__str__\<close> write nothing and are not part of a sequence.\<close>

datatype call = Insert dict | Delete "key list" | Transaction | Rollback | Commit

fun do_call :: "Column \<Rightarrow> call \<Rightarrow> outcome" where
  "do_call c (Insert values) = insert_col c values"
| "do_call c (Delete ks) = delete c ks"
| "do_call c Transaction = transaction c"
| "do_call c Rollback = rollback c"
| "do_call c Commit = commit c"

definition run :: "Column \<Rightarrow> call list \<Rightarrow> Column" where
  "run c calls = foldl (\<lambda>c x. state_of (do_call c x)) c calls"


definition staging :: "call \<Rightarrow> bool" where
  \<comment> \<open>the calls that stage changes inside a transaction\<close>
  "staging x = (case x of Insert values \<Rightarrow> True | Delete ks \<Rightarrow> True | _ \<Rightarrow> False)"

definition buffers_empty_when_idle :: "Column \<Rightarrow> bool" where
  "buffers_empty_when_idle c =
     (transaction_marker c \<or> (trans_dict c = [] \<and> to_del c = []))"

section \<open>Database\<close>

text \<open>
  \<open>Database.__init__\<close> does not call \<open>Column.__init__\<close>: an instance has the attributes
  \<open>_vars\<close> and \<open>tables\<close> and, injected into the same instance dictionary, one attribute per
  table name holding its \<open>Column\<close>. The state of a Database is that instance dictionary
  \<open>self.__dict__\<close>. \<open>__str__\<close> stores in \<open>_vars\<close> the \<open>_vals\<close> dictionaries of the columns
  themselves (not copies): such an entry is a reference, named by the attribute under
  which the column is stored; a column object is never replaced and its \<open>_vals\<close> is never
  rebound, so the reference always reads the column's current \<open>_vals\<close>. \<open>Database\<close>
  inherits the methods of \<open>Column\<close>, and \<open>transaction()\<close> called on the Database itself
  stores \<open>True\<close> under \<open>transaction_marker\<close> in the same dictionary.
\<close>

datatype ref = ValsOf string

datatype attr =
    VarsAttr "(string \<times> ref) list"
  | TablesAttr "string list"
  | ColumnAttr Column
  | BoolAttr bool

type_synonym Database = "(string \<times> attr) list"

definition Database_init :: "string list \<Rightarrow> Database" where
  "Database_init tables =
     fold (\<lambda>a d. AList.update a (ColumnAttr (Column_init a)) d) tables
       [(''_vars'', VarsAttr []), (''tables'', TablesAttr tables)]"

text \<open>
  The source has no lookup method: a column is reached by attribute access \<open>db.<name>\<close>.
  Python resolves an attribute of an instance in this order: a data descriptor of the class
  (for a class without \<open>__slots__\<close> these are \<open>__class__\<close>, \<open>__dict__\<close> and \<open>__weakref__\<close>), then
  the instance dictionary, then any other attribute of the class or its bases, and raises
  \<open>AttributeError\<close> otherwise. The class attributes are the names bound in the bodies of
  \<open>Database\<close> and \<open>Column\<close> (their methods and docstring) and those that the interpreter
  provides for every class and through \<open>object\<close>; the latter depend on the Python version
  and are the parameter \<open>builtin\<close>.
\<close>

definition data_descriptors :: "string list" where
  "data_descriptors = [''__class__'', ''__dict__'', ''__weakref__'']"

definition class_attrs :: "string list" where
  "class_attrs = [''__doc__'', ''__init__'', ''__str__'', ''__getitem__'', ''insert'',
     ''delete'', ''mean'', ''transaction'', ''rollback'', ''commit'']"

datatype found =
    InstanceAttr attr        \<comment> \<open>the value stored in the instance dictionary\<close>
  | ClassAttr string         \<comment> \<open>the class attribute of that name, a bound method for a method\<close>
  | DataDescriptor string    \<comment> \<open>the class, the instance dictionary itself, or \<open>None\<close>\<close>

definition getattr_db :: "string list \<Rightarrow> Database \<Rightarrow> string \<Rightarrow> error + found" where
  \<comment> \<open>\<open>db.<a>\<close>\<close>
  "getattr_db builtin db a =
     (if a \<in> set data_descriptors then Inr (DataDescriptor a)
      else case map_of db a of
          Some x \<Rightarrow> Inr (InstanceAttr x)
        | None \<Rightarrow>
            if a \<in> set class_attrs \<or> a \<in> set builtin then Inr (ClassAttr a)
            else Inl (AttributeError a))"

definition object_attrs :: "string list" where
  \<comment> \<open>an instance of \<open>builtin\<close> for concrete runs: the attributes of \<open>object\<close> in CPython 3.12
      and \<open>__module__\<close>\<close>
  "object_attrs = [''__module__'', ''__new__'', ''__repr__'', ''__hash__'', ''__getattribute__'',
     ''__setattr__'', ''__delattr__'', ''__lt__'', ''__le__'', ''__eq__'', ''__ne__'', ''__gt__'',
     ''__ge__'', ''__reduce_ex__'', ''__reduce__'', ''__getstate__'', ''__subclasshook__'',
     ''__init_subclass__'', ''__format__'', ''__sizeof__'', ''__dir__'']"

definition enter_vars :: "string \<Rightarrow> (string \<times> ref) list \<Rightarrow> (string \<times> ref) list" where
  \<comment> \<open>\<open>vs.update({var: r})\<close> where \<open>r\<close> is the \<open>_vals\<close> of the column stored under \<open>var\<close>\<close>
  "enter_vars var vs = AList.update var (ValsOf var) vs"

definition vars_update :: "Database \<Rightarrow> string \<Rightarrow> error option \<times> Database" where
  \<comment> \<open>\<open>self._vars.update({var: self.__dict__[var]._vals})\<close>: the callee \<open>self._vars.update\<close>
      is evaluated before the argument; neither \<open>_vars\<close> nor \<open>tables\<close> is a class attribute\<close>
  "vars_update db var =
     (case map_of db ''_vars'' of
        None \<Rightarrow> (Some (AttributeError ''_vars''), db)
      | Some (VarsAttr vs) \<Rightarrow>
          (case map_of db var of
             None \<Rightarrow> (Some (NameKeyError var), db)
           | Some (ColumnAttr c) \<Rightarrow>
               (None, AList.update ''_vars'' (VarsAttr (enter_vars var vs)) db)
           | Some _ \<Rightarrow> (Some (AttributeError ''_vals''), db))
      | Some _ \<Rightarrow> (Some (AttributeError ''update''), db))"

fun vars_loop :: "Database \<Rightarrow> string list \<Rightarrow> error option \<times> Database" where
  "vars_loop db [] = (None, db)"
| "vars_loop db (var # rest) =
     (case vars_update db var of
        (None, db') \<Rightarrow> vars_loop db' rest
      | (Some e, db') \<Rightarrow> (Some e, db'))"

definition str_vars :: "Database \<Rightarrow> error option \<times> Database" where
  \<comment> \<open>the loop of \<open>__str__\<close>. When a table is itself named \<open>tables\<close>, \<open>self.tables\<close> is that
      Column, which Python iterates through \<open>__getitem__(0)\<close>: a \<open>KeyError\<close>, or an integer
      value that is then no key of \<open>__dict__\<close>. The cases of a dict or a bool under
      \<open>tables\<close> are there for totality: nothing stores one there\<close>
  "str_vars db =
     (case map_of db ''tables'' of
        None \<Rightarrow> (Some (AttributeError ''tables''), db)
      | Some (TablesAttr ts) \<Rightarrow> vars_loop db ts
      | Some (VarsAttr vs) \<Rightarrow> vars_loop db (map fst vs)
      | Some (BoolAttr b) \<Rightarrow> (Some TypeError, db)
      | Some (ColumnAttr c) \<Rightarrow>
          (case getitem c 0 of
             Inl e \<Rightarrow> (Some e, db)
           | Inr v \<Rightarrow>
               (case map_of db ''_vars'' of
                  None \<Rightarrow> (Some (AttributeError ''_vars''), db)
                | Some (VarsAttr vs) \<Rightarrow> (Some (KeyError v), db)
                | Some _ \<Rightarrow> (Some (AttributeError ''update''), db))))"

definition deref :: "Database \<Rightarrow> ref \<Rightarrow> dict" where
  "deref db r =
     (case r of ValsOf a \<Rightarrow> (case map_of db a of Some (ColumnAttr c) \<Rightarrow> vals c | _ \<Rightarrow> []))"

datatype db_outcome = DbReturned string Database | DbRaised error Database

fun db_state_of :: "db_outcome \<Rightarrow> Database" where
  "db_state_of (DbReturned s db) = db"
| "db_state_of (DbRaised e db) = db"

definition str_Database :: "((string \<times> dict) list \<Rightarrow> string) \<Rightarrow> Database \<Rightarrow> db_outcome" where
  \<comment> \<open>\<open>__str__\<close>; \<open>df_format\<close> stands for pandas' \<open>"{}".format(pd.DataFrame(...))\<close>. The last
      case (the loop ran to its end although \<open>_vars\<close> is no dict) needs an empty
      \<open>self.tables\<close> and a table named \<open>_vars\<close> at once, which \<open>__init__\<close> never produces\<close>
  "str_Database df_format db =
     (case str_vars db of
        (Some e, db') \<Rightarrow> DbRaised e db'
      | (None, db') \<Rightarrow>
          (case map_of db' ''_vars'' of
             Some (VarsAttr vs) \<Rightarrow>
               DbReturned (df_format (map (\<lambda>(var, r). (var, deref db' r)) vs)) db'
           | _ \<Rightarrow> DbRaised ValueError db'))"

text \<open>
  A caller reaches a column as \<open>db.<name>\<close> and calls a Column method on it. When
  \<open>db.<name>\<close> is not a Column the call raises and changes nothing: a list has an \<open>insert\<close>
  of two arguments and nothing else of those names; a dict, a bool, \<open>None\<close>, a string and a
  bound method have none of them; \<open>db.__class__\<close> is the class, whose functions then lack an
  argument.
\<close>

fun method_name :: "call \<Rightarrow> string" where
  "method_name (Insert values) = ''insert''"
| "method_name (Delete ks) = ''delete''"
| "method_name Transaction = ''transaction''"
| "method_name Rollback = ''rollback''"
| "method_name Commit = ''commit''"

definition on_column ::
  "string list \<Rightarrow> Database \<Rightarrow> string \<Rightarrow> call \<Rightarrow> error option \<times> Database" where
  \<comment> \<open>\<open>db.<a>.<method>(...)\<close>\<close>
  "on_column builtin db a x =
     (case getattr_db builtin db a of
        Inl e \<Rightarrow> (Some e, db)
      | Inr (InstanceAttr (ColumnAttr c)) \<Rightarrow>
          (raised (do_call c x), AList.update a (ColumnAttr (state_of (do_call c x))) db)
      | Inr (InstanceAttr (TablesAttr ts)) \<Rightarrow>
          (Some (case x of Insert values \<Rightarrow> TypeError | _ \<Rightarrow> AttributeError (method_name x)), db)
      | Inr (InstanceAttr _) \<Rightarrow> (Some (AttributeError (method_name x)), db)
      | Inr (ClassAttr n) \<Rightarrow> (Some (AttributeError (method_name x)), db)
      | Inr (DataDescriptor n) \<Rightarrow>
          (Some (if n = ''__class__'' then TypeError else AttributeError (method_name x)), db))"

text \<open>
  The inherited Column methods called on the Database itself read \<open>self._vals\<close>,
  \<open>self.trans_dict\<close> and \<open>self.transaction_marker\<close>, which a Database has only when a table
  bears that name (then it is a Column, which has no \<open>keys\<close>, \<open>update\<close> or \<open>clear\<close>) or, for
  the marker, after \<open>transaction()\<close>. No class attribute has one of these names, so they
  are read from the instance dictionary. \<open>IllTyped\<close> marks the dictionaries that hold the
  dict of references or the list of table names under such a name; nothing stores one
  there, and the model does not follow Python further.
\<close>

definition truthy :: "attr \<Rightarrow> bool" where
  \<comment> \<open>Python's truth value; a Column defines neither \<open>__bool__\<close> nor \<open>__len__\<close>\<close>
  "truthy x =
     (case x of BoolAttr b \<Rightarrow> b | ColumnAttr c \<Rightarrow> True | VarsAttr vs \<Rightarrow> vs \<noteq> []
      | TablesAttr ts \<Rightarrow> ts \<noteq> [])"

definition self_method_error :: "Database \<Rightarrow> string \<Rightarrow> string \<Rightarrow> error" where
  \<comment> \<open>what evaluating \<open>self.<field>.<method>\<close> raises\<close>
  "self_method_error db field m =
     (case map_of db field of
        None \<Rightarrow> AttributeError field
      | Some (ColumnAttr c) \<Rightarrow> AttributeError m
      | Some (BoolAttr b) \<Rightarrow> AttributeError m
      | Some _ \<Rightarrow> IllTyped)"

fun on_self :: "Database \<Rightarrow> call \<Rightarrow> error option \<times> Database" where
  \<comment> \<open>\<open>db.<method>(...)\<close> for the methods inherited from \<open>Column\<close>\<close>
  "on_self db (Insert values) =
     (if values \<noteq> [] then (Some (self_method_error db ''_vals'' ''keys''), db)
      else case map_of db ''transaction_marker'' of
          None \<Rightarrow> (Some (AttributeError ''transaction_marker''), db)
        | Some x \<Rightarrow>
            if truthy x then (Some (self_method_error db ''trans_dict'' ''update''), db)
            else (Some (self_method_error db ''_vals'' ''update''), db))"
| "on_self db (Delete ks) =
     (case map_of db ''transaction_marker'' of
        None \<Rightarrow> (Some (AttributeError ''transaction_marker''), db)
      | Some x \<Rightarrow>
          if ks = [] then (None, db)
          else if truthy x then (Some (self_method_error db ''trans_dict'' ''keys''), db)
          else (Some (self_method_error db ''_vals'' ''keys''), db))"
| "on_self db Transaction = (None, AList.update ''transaction_marker'' (BoolAttr True) db)"
| "on_self db Rollback = (Some (self_method_error db ''trans_dict'' ''clear''), db)"
| "on_self db Commit = (Some (self_method_error db ''_vals'' ''update''), db)"

text \<open>
  A caller's sequence of calls on a Database: a Column method on \<open>db.<name>\<close>, an inherited
  Column method on the Database itself, or a rendering. As for a column, a raise does not
  end the sequence. The inherited \<open>mean\<close> and \<open>__getitem__\<close> read \<open>self.name\<close> and
  \<open>self._vals\<close>, write nothing, and are not part of a sequence.
\<close>

datatype db_call = OnColumn string call | OnSelf call | Str

fun do_db_call :: "string list \<Rightarrow> Database \<Rightarrow> db_call \<Rightarrow> Database" where
  "do_db_call builtin db (OnColumn a x) = snd (on_column builtin db a x)"
| "do_db_call builtin db (OnSelf x) = snd (on_self db x)"
| "do_db_call builtin db Str = snd (str_vars db)"

definition db_run :: "string list \<Rightarrow> Database \<Rightarrow> db_call list \<Rightarrow> Database" where
  "db_run builtin db calls = foldl (do_db_call builtin) db calls"

fun calls_on :: "string \<Rightarrow> db_call list \<Rightarrow> call list" where
  \<comment> \<open>the calls of a sequence that are made on \<open>db.<a>\<close>\<close>
  "calls_on a [] = []"
| "calls_on a (OnColumn b x # rest) = (if b = a then x # calls_on a rest else calls_on a rest)"
| "calls_on a (OnSelf x # rest) = calls_on a rest"
| "calls_on a (Str # rest) = calls_on a rest"

definition is_vars :: "attr option \<Rightarrow> bool" where
  \<comment> \<open>the attribute is present and holds a dictionary of references, as \<open>_vars\<close> does\<close>
  "is_vars x = (case x of Some (VarsAttr vs) \<Rightarrow> True | _ \<Rightarrow> False)"

definition is_column :: "attr option \<Rightarrow> bool" where
  \<comment> \<open>the attribute is present and holds a Column\<close>
  "is_column x = (case x of Some (ColumnAttr c) \<Rightarrow> True | _ \<Rightarrow> False)"

definition names_only :: "(string \<times> dict) list \<Rightarrow> string" where
  \<comment> \<open>an instance of \<open>df_format\<close> for concrete runs: the column names, one per line\<close>
  "names_only t = concat (map (\<lambda>(var, d). var @ [CHR 0x0A]) t)"

section \<open>What the calls leave unchanged\<close>

lemma delete_staged_fields:
  "vals (delete_staged c k) = vals c"
  "name (delete_staged c k) = name c"
  "transaction_marker (delete_staged c k) = transaction_marker c"
  "trans_dict (delete_staged c k) = AList.delete k (trans_dict c)"
  by (simp_all add: delete_staged_def keys_def)

lemma foldl_delete_staged_fields:
  "vals (foldl delete_staged c ks) = vals c"
  "name (foldl delete_staged c ks) = name c"
  "transaction_marker (foldl delete_staged c ks) = transaction_marker c"
  by (induction ks arbitrary: c) (simp_all add: delete_staged_fields)

lemma foldl_delete_staged_trans_dict:
  "trans_dict (foldl delete_staged c ks) = filter (\<lambda>p. fst p \<notin> set ks) (trans_dict c)"
proof (induction ks arbitrary: c)
  case Nil
  show ?case by simp
next
  case (Cons k ks)
  have "filter (\<lambda>p. fst p \<notin> set ks) (AList.delete k (trans_dict c))
        = filter (\<lambda>p. fst p \<notin> set (k # ks)) (trans_dict c)"
    by (auto simp: AList.delete_eq intro: filter_cong)
  with Cons show ?case by (simp add: delete_staged_fields)
qed

lemma delete_direct_fields:
  "name (delete_direct c k) = name c"
  "transaction_marker (delete_direct c k) = transaction_marker c"
  "trans_dict (delete_direct c k) = trans_dict c"
  "to_del (delete_direct c k) = to_del c"
  by (simp_all add: delete_direct_def)

lemma foldl_delete_direct_fields:
  "name (foldl delete_direct c ks) = name c"
  "transaction_marker (foldl delete_direct c ks) = transaction_marker c"
  "trans_dict (foldl delete_direct c ks) = trans_dict c"
  "to_del (foldl delete_direct c ks) = to_del c"
  by (induction ks arbitrary: c) (simp_all add: delete_direct_fields)

text \<open>
  While the transaction marker is set, \<open>insert\<close> and \<open>delete\<close> write only to \<open>trans_dict\<close>
  and \<open>to_del\<close>; an \<open>insert\<close> that raises writes nothing.
\<close>

lemma staging_call_frame:
  assumes "transaction_marker c" and "staging x"
  shows "vals (state_of (do_call c x)) = vals c
         \<and> name (state_of (do_call c x)) = name c
         \<and> transaction_marker (state_of (do_call c x))"
proof (cases x)
  case (Insert batch)
  with assms(1) show ?thesis
    by (simp add: insert_col_def split: option.splits)
next
  case (Delete ks)
  with assms(1) show ?thesis
    by (simp add: delete_def foldl_delete_staged_fields)
qed (use assms(2) in \<open>simp_all add: staging_def\<close>)

lemma staging_run_frame:
  assumes "transaction_marker c" and "list_all staging calls"
  shows "vals (run c calls) = vals c \<and> name (run c calls) = name c
         \<and> transaction_marker (run c calls)"
  using assms
proof (induction calls arbitrary: c)
  case Nil
  then show ?case by (simp add: run_def)
next
  case (Cons x calls)
  from Cons.prems have fr: "vals (state_of (do_call c x)) = vals c
         \<and> name (state_of (do_call c x)) = name c
         \<and> transaction_marker (state_of (do_call c x))"
    by (simp add: staging_call_frame)
  moreover have "run c (x # calls) = run (state_of (do_call c x)) calls"
    by (simp add: run_def)
  moreover from Cons.prems have "list_all staging calls" by simp
  ultimately show ?case using Cons.IH [of "state_of (do_call c x)"] by simp
qed

section \<open>Insert\<close>

lemma find_keys_Some:
  "find (\<lambda>k. k \<in> A) ks = Some k \<Longrightarrow> k \<in> set ks \<and> k \<in> A"
  by (induction ks) (auto split: if_splits)

lemma find_keys_None:
  "find (\<lambda>k. k \<in> A) ks = None \<longleftrightarrow> set ks \<inter> A = {}"
  by (induction ks) auto

text \<open>
  C1. If some key of the batch \<open>values\<close> is already a key of \<open>_vals\<close>, \<open>insert\<close> raises
  \<open>OverwriteNotAllowed\<close> for a key that is both in the batch and in \<open>_vals\<close>, and the
  column is left exactly as it was: \<open>_vals\<close>, \<open>trans_dict\<close>, \<open>to_del\<close> and the
  transaction marker are all unchanged.
\<close>

theorem insert_existing_key_raises_unchanged:
  assumes "set (keys values) \<inter> set (keys (vals c)) \<noteq> {}"
  shows "\<exists>k. k \<in> set (keys values) \<and> k \<in> set (keys (vals c))
           \<and> insert_col c values = Raised (OverwriteNotAllowed k) c"
proof (cases "find (\<lambda>k. k \<in> set (keys (vals c))) (keys values)")
  case None
  with assms show ?thesis by (simp add: find_keys_None)
next
  case (Some k)
  then have "k \<in> set (keys values) \<and> k \<in> set (keys (vals c))"
    by (rule find_keys_Some)
  moreover from Some have "insert_col c values = Raised (OverwriteNotAllowed k) c"
    by (simp add: insert_col_def)
  ultimately show ?thesis by blast
qed

theorem insert_existing_key_raises_unchanged_witness:
  "set (keys [(10, 20)])
     \<inter> set (keys (vals (run (Column_init ''temperature'') [Insert [(10, 10), (40, 0), (50, 2)]])))
     \<noteq> {}
   \<and> insert_col (run (Column_init ''temperature'') [Insert [(10, 10), (40, 0), (50, 2)]]) [(10, 20)]
       = Raised (OverwriteNotAllowed 10)
           (run (Column_init ''temperature'') [Insert [(10, 10), (40, 0), (50, 2)]])"
  using insert_existing_key_raises_unchanged
    [of "[(10, 20)]" "run (Column_init ''temperature'') [Insert [(10, 10), (40, 0), (50, 2)]]"]
  by (simp add: keys_def run_def insert_col_def Column_init_def dict_update_def)

section \<open>Dictionaries\<close>

lemma map_of_dict_update:
  "map_of (dict_update d batch) = map_of d ++ map_of (rev batch)"
proof (induction batch arbitrary: d)
  case Nil
  show ?case by (simp add: dict_update_def)
next
  case (Cons p batch)
  obtain k v where p: "p = (k, v)" by (cases p)
  have "dict_update d (p # batch) = dict_update (AList.update k v d) batch"
    by (simp add: dict_update_def p)
  then have "map_of (dict_update d (p # batch))
             = map_of (AList.update k v d) ++ map_of (rev batch)"
    by (simp add: Cons.IH)
  also have "\<dots> = map_of d ++ map_of (rev (p # batch))"
    by (simp add: p update_conv' map_add_upd_left fun_eq_iff map_add_def split: option.splits)
  finally show ?case .
qed

lemma keys_dict_update:
  "set (keys (dict_update d batch)) = set (keys d) \<union> set (keys batch)"
proof -
  have "set (keys (dict_update d batch)) = dom (map_of (dict_update d batch))"
    by (simp add: keys_def dom_map_of_conv_image_fst)
  also have "\<dots> = dom (map_of d) \<union> dom (map_of (rev batch))"
    by (simp add: map_of_dict_update Un_commute)
  also have "\<dots> = set (keys d) \<union> set (keys batch)"
    by (simp add: keys_def dom_map_of_conv_image_fst)
  finally show ?thesis .
qed

text \<open>
  C7. In an open transaction, an \<open>insert\<close> whose keys are not keys of \<open>_vals\<close> returns
  without raising, whether or not a key is already in \<open>trans_dict\<close>: afterwards
  \<open>trans_dict\<close> maps every key of the batch to the batch's value (a value staged before
  is overwritten), the other staged entries are as before, and \<open>_vals\<close>, \<open>to_del\<close> and
  the marker are unchanged. The batch is a dict, so its keys are distinct.
\<close>

theorem staged_reinsert_overwrites:
  assumes "transaction_marker c" and "distinct (keys batch)"
    and "set (keys batch) \<inter> set (keys (vals c)) = {}"
  shows "\<exists>c'. insert_col c batch = Returned c'
           \<and> (\<forall>k v. (k, v) \<in> set batch \<longrightarrow> map_of (trans_dict c') k = Some v)
           \<and> (\<forall>k. k \<notin> set (keys batch) \<longrightarrow> map_of (trans_dict c') k = map_of (trans_dict c) k)
           \<and> vals c' = vals c \<and> to_del c' = to_del c \<and> transaction_marker c'"
proof -
  let ?c' = "c\<lparr>trans_dict := dict_update (trans_dict c) batch\<rparr>"
  from assms(3) have "find (\<lambda>k. k \<in> set (keys (vals c))) (keys batch) = None"
    by (simp add: find_keys_None)
  with assms(1) have ret: "insert_col c batch = Returned ?c'"
    by (simp add: insert_col_def)
  have new: "map_of (trans_dict ?c') k = Some v" if "(k, v) \<in> set batch" for k v
  proof -
    have "map fst (rev batch) = rev (map fst batch)"
      by (simp add: rev_map)
    with assms(2) have "distinct (map fst (rev batch))"
      by (simp add: keys_def del: rev_map)
    with that have "map_of (rev batch) k = Some v"
      by (simp add: map_of_is_SomeI)
    then show ?thesis by (simp add: map_of_dict_update)
  qed
  have old: "map_of (trans_dict ?c') k = map_of (trans_dict c) k"
    if "k \<notin> set (keys batch)" for k
  proof -
    from that have "map_of (rev batch) k = None"
      by (simp add: keys_def map_of_eq_None_iff)
    then show ?thesis by (simp add: map_of_dict_update map_add_def)
  qed
  from ret new old assms(1) show ?thesis by simp
qed

theorem staged_reinsert_overwrites_witness:
  "transaction_marker (run (Column_init ''temperature'') [Transaction, Insert [(40, 19), (50, 21)]])
   \<and> distinct (keys [(40, 0)])
   \<and> set (keys [(40, 0)])
       \<inter> set (keys (vals (run (Column_init ''temperature'') [Transaction, Insert [(40, 19), (50, 21)]])))
       = {}
   \<and> 40 \<in> set (keys (trans_dict
         (run (Column_init ''temperature'') [Transaction, Insert [(40, 19), (50, 21)]])))
   \<and> insert_col (run (Column_init ''temperature'') [Transaction, Insert [(40, 19), (50, 21)]])
         [(40, 0)]
       = Returned \<lparr>name = ''temperature'', vals = [], transaction_marker = True,
           trans_dict = [(40, 0), (50, 21)], to_del = []\<rparr>"
  using staged_reinsert_overwrites
    [of "run (Column_init ''temperature'') [Transaction, Insert [(40, 19), (50, 21)]]" "[(40, 0)]"]
  by (simp add: keys_def run_def insert_col_def transaction_def Column_init_def dict_update_def)

section \<open>Rollback, mean and the idle invariant\<close>

text \<open>
  C3. After \<open>transaction()\<close> and any sequence of \<open>insert\<close> and \<open>delete\<close> calls (raising
  or not), \<open>rollback()\<close> returns with \<open>_vals\<close> (and the name) as before the transaction,
  \<open>trans_dict\<close> and \<open>to_del\<close> empty and the transaction marker off.
\<close>

theorem rollback_restores_committed:
  assumes "list_all staging calls"
  shows "rollback (run (state_of (transaction c)) calls)
         = Returned (c\<lparr>trans_dict := [], to_del := [], transaction_marker := False\<rparr>)"
proof -
  let ?c1 = "run (state_of (transaction c)) calls"
  have "transaction_marker (state_of (transaction c))"
    by (simp add: transaction_def)
  with assms have "vals ?c1 = vals c \<and> name ?c1 = name c"
    using staging_run_frame [of "state_of (transaction c)" calls]
    by (simp add: transaction_def)
  then show ?thesis by (simp add: rollback_def)
qed

theorem rollback_restores_committed_witness:
  "list_all staging [Insert [(40, 19), (50, 21)], Delete [10]]
   \<and> rollback (run (state_of (transaction
         \<lparr>name = ''temperature'', vals = [(10, 10), (20, 11), (30, 9)],
          transaction_marker = False, trans_dict = [], to_del = []\<rparr>))
         [Insert [(40, 19), (50, 21)], Delete [10]])
     = Returned \<lparr>name = ''temperature'', vals = [(10, 10), (20, 11), (30, 9)],
         transaction_marker = False, trans_dict = [], to_del = []\<rparr>"
  using rollback_restores_committed
    [of "[Insert [(40, 19), (50, 21)], Delete [10]]"
        "\<lparr>name = ''temperature'', vals = [(10, 10), (20, 11), (30, 9)],
          transaction_marker = False, trans_dict = [], to_del = []\<rparr>"]
  by (simp add: staging_def)



lemma call_keeps_buffers_empty_when_idle:
  assumes "buffers_empty_when_idle c"
  shows "buffers_empty_when_idle (state_of (do_call c x))"
proof (cases x)
  case (Insert batch)
  with assms show ?thesis
    by (auto simp: insert_col_def buffers_empty_when_idle_def split: option.splits)
next
  case (Delete ks)
  with assms show ?thesis
    by (auto simp: delete_def buffers_empty_when_idle_def foldl_delete_staged_fields
        foldl_delete_direct_fields)
next
  case Transaction
  then show ?thesis by (simp add: transaction_def buffers_empty_when_idle_def)
next
  case Rollback
  then show ?thesis by (simp add: rollback_def buffers_empty_when_idle_def)
next
  case Commit
  with assms show ?thesis
    by (auto simp: commit_def buffers_empty_when_idle_def split: prod.splits option.splits)
qed

text \<open>
  C8. In every state that a sequence of calls (\<open>insert\<close>, \<open>delete\<close>, \<open>transaction\<close>,
  \<open>rollback\<close>, \<open>commit\<close>, raising or not) reaches from a new Column, the transaction
  marker is on or both \<open>trans_dict\<close> and \<open>to_del\<close> are empty.
\<close>

theorem buffers_empty_when_idle_invariant:
  "buffers_empty_when_idle (run (Column_init n) calls)"
proof -
  have "buffers_empty_when_idle c \<Longrightarrow> buffers_empty_when_idle (run c calls)" for c
  proof (induction calls arbitrary: c)
    case Nil
    then show ?case by (simp add: run_def)
  next
    case (Cons x calls)
    have "run c (x # calls) = run (state_of (do_call c x)) calls"
      by (simp add: run_def)
    with Cons show ?case by (simp add: call_keeps_buffers_empty_when_idle)
  qed
  moreover have "buffers_empty_when_idle (Column_init n)"
    by (simp add: buffers_empty_when_idle_def Column_init_def)
  ultimately show ?thesis by blast
qed

theorem buffers_empty_when_idle_invariant_witness:
  "\<not> transaction_marker (run (Column_init ''temperature'')
        [Insert [(10, 10)], Transaction, Insert [(40, 0)], Delete [10], Commit])
   \<and> trans_dict (run (Column_init ''temperature'')
        [Insert [(10, 10)], Transaction, Insert [(40, 0)], Delete [10], Commit]) = []
   \<and> to_del (run (Column_init ''temperature'')
        [Insert [(10, 10)], Transaction, Insert [(40, 0)], Delete [10], Commit]) = []"
proof -
  have "\<not> transaction_marker (run (Column_init ''temperature'')
        [Insert [(10, 10)], Transaction, Insert [(40, 0)], Delete [10], Commit])"
    by (simp add: keys_def run_def insert_col_def transaction_def Column_init_def dict_update_def
      delete_def delete_staged_def commit_def)
  with buffers_empty_when_idle_invariant [of "''temperature''"
      "[Insert [(10, 10)], Transaction, Insert [(40, 0)], Delete [10], Commit]"]
  show ?thesis by (simp add: buffers_empty_when_idle_def)
qed

section \<open>Delete in a transaction\<close>

lemma keys_pop_all: "set (keys (snd (pop_all d ks))) \<subseteq> set (keys d)"
proof (induction ks arbitrary: d)
  case Nil
  show ?case by simp
next
  case (Cons k ks)
  have "set (keys (AList.delete k d)) \<subseteq> set (keys d)"
    by (auto simp: keys_def AList.delete_eq)
  with Cons [of "AList.delete k d"] show ?case by auto
qed

lemma commit_adds_only_staged_keys:
  "set (keys (vals (state_of (commit c)))) \<subseteq> set (keys (vals c)) \<union> set (keys (trans_dict c))"
proof -
  obtain e d where p: "pop_all (dict_update (vals c) (trans_dict c)) (to_del c) = (e, d)"
    by (cases "pop_all (dict_update (vals c) (trans_dict c)) (to_del c)")
  then have "set (keys d) \<subseteq> set (keys (dict_update (vals c) (trans_dict c)))"
    using keys_pop_all [of "dict_update (vals c) (trans_dict c)" "to_del c"] by simp
  moreover have "vals (state_of (commit c)) = d"
    using p by (cases e) (simp_all add: commit_def)
  ultimately show ?thesis by (simp add: keys_dict_update)
qed

lemma to_del_foldl_delete_staged:
  "\<exists>new. to_del (foldl delete_staged c ks) = to_del c @ new
         \<and> set new \<subseteq> set ks \<inter> set (keys (vals c))"
proof (induction ks arbitrary: c)
  case Nil
  show ?case by simp
next
  case (Cons k ks)
  obtain new where new: "to_del (foldl delete_staged (delete_staged c k) ks)
      = to_del (delete_staged c k) @ new" "set new \<subseteq> set ks \<inter> set (keys (vals c))"
    using Cons [of "delete_staged c k"] by (auto simp: delete_staged_fields)
  obtain one where one: "to_del (delete_staged c k) = to_del c @ one"
     "set one \<subseteq> {k} \<inter> set (keys (vals c))"
    by (cases "k \<in> set (keys (trans_dict c))"; cases "k \<in> set (keys (vals c))")
       (auto simp: delete_staged_def)
  have "to_del (foldl delete_staged c (k # ks)) = to_del c @ (one @ new)"
    by (simp add: new one)
  moreover have "set (one @ new) \<subseteq> set (k # ks) \<inter> set (keys (vals c))"
    using new(2) one(2) by auto
  ultimately show ?case by blast
qed

lemma committed_key_staged_for_delete:
  assumes "k \<in> set ks" and "k \<notin> set (keys (trans_dict c))" and "k \<in> set (keys (vals c))"
  shows "k \<in> set (to_del (foldl delete_staged c ks))"
  using assms
proof (induction ks arbitrary: c)
  case Nil
  then show ?case by simp
next
  case (Cons a ks)
  show ?case
  proof (cases "a = k")
    case True
    with Cons.prems have "k \<in> set (to_del (delete_staged c a))"
      by (simp add: delete_staged_def)
    moreover obtain new where
      "to_del (foldl delete_staged (delete_staged c a) ks) = to_del (delete_staged c a) @ new"
      using to_del_foldl_delete_staged [of "delete_staged c a" ks] by blast
    ultimately show ?thesis by simp
  next
    case False
    with Cons.prems have "k \<in> set ks" by simp
    moreover from Cons.prems have "k \<notin> set (keys (trans_dict (delete_staged c a)))"
      by (auto simp: delete_staged_fields keys_def AList.delete_eq)
    moreover from Cons.prems have "k \<in> set (keys (vals (delete_staged c a)))"
      by (simp add: delete_staged_fields)
    ultimately show ?thesis using Cons.IH [of "delete_staged c a"] by simp
  qed
qed

lemma to_del_foldl_delete_staged_exact:
  assumes "set (keys (trans_dict c)) \<inter> set (keys (vals c)) = {}"
  shows "to_del (foldl delete_staged c ks)
         = to_del c @ filter (\<lambda>k. k \<in> set (keys (vals c))) ks"
  using assms
proof (induction ks arbitrary: c)
  case Nil
  show ?case by simp
next
  case (Cons k ks)
  have "set (keys (trans_dict (delete_staged c k))) \<subseteq> set (keys (trans_dict c))"
    by (auto simp: delete_staged_fields keys_def AList.delete_eq)
  with Cons.prems
  have "set (keys (trans_dict (delete_staged c k))) \<inter> set (keys (vals (delete_staged c k))) = {}"
    by (auto simp: delete_staged_fields)
  then have "to_del (foldl delete_staged (delete_staged c k) ks)
      = to_del (delete_staged c k) @ filter (\<lambda>k. k \<in> set (keys (vals c))) ks"
    using Cons.IH [of "delete_staged c k"] by (simp add: delete_staged_fields)
  moreover have "to_del (delete_staged c k)
      = to_del c @ (if k \<in> set (keys (vals c)) then [k] else [])"
    using Cons.prems by (auto simp: delete_staged_def)
  ultimately show ?case by simp
qed

text \<open>
  In an open transaction \<open>delete(keys)\<close> returns without raising and
  \<^item> removes from \<open>trans_dict\<close> exactly the entries whose key is among \<open>keys\<close>;
  \<^item> only appends to \<open>to_del\<close>, and only keys among \<open>keys\<close> that are keys of \<open>_vals\<close>: a key
    absent from both dictionaries is ignored;
  \<^item> appends every key among \<open>keys\<close> that is not staged and is a key of \<open>_vals\<close>;
  \<^item> when no staged key is a key of \<open>_vals\<close>, appends exactly the keys of \<open>_vals\<close> among
    \<open>keys\<close>, in order and as often as they occur;
  \<^item> leaves \<open>_vals\<close>, the name and the marker unchanged;
  \<^item> and a key among \<open>keys\<close> that is no key of \<open>_vals\<close> is no key of \<open>_vals\<close> after the
    following \<open>commit\<close>.
\<close>

lemma staged_delete_effect:
  assumes "transaction_marker c"
  shows "\<exists>c'. delete c ks = Returned c'
           \<and> trans_dict c' = filter (\<lambda>p. fst p \<notin> set ks) (trans_dict c)
           \<and> (\<exists>new. to_del c' = to_del c @ new \<and> set new \<subseteq> set ks \<inter> set (keys (vals c)))
           \<and> (\<forall>k \<in> set ks. k \<notin> set (keys (trans_dict c)) \<and> k \<in> set (keys (vals c))
                 \<longrightarrow> k \<in> set (to_del c'))
           \<and> (set (keys (trans_dict c)) \<inter> set (keys (vals c)) = {}
                 \<longrightarrow> to_del c' = to_del c @ filter (\<lambda>k. k \<in> set (keys (vals c))) ks)
           \<and> vals c' = vals c \<and> name c' = name c \<and> transaction_marker c'
           \<and> (\<forall>k \<in> set ks. k \<notin> set (keys (vals c))
                 \<longrightarrow> k \<notin> set (keys (vals (state_of (commit c')))))"
proof -
  let ?c' = "foldl delete_staged c ks"
  from assms have ret: "delete c ks = Returned ?c'"
    by (simp add: delete_def)
  have gone: "k \<notin> set (keys (vals (state_of (commit ?c'))))"
    if "k \<in> set ks" and "k \<notin> set (keys (vals c))" for k
  proof -
    from that(1) have "k \<notin> set (keys (trans_dict ?c'))"
      by (auto simp: keys_def foldl_delete_staged_trans_dict)
    moreover from that(2) have "k \<notin> set (keys (vals ?c'))"
      by (simp add: foldl_delete_staged_fields)
    ultimately show ?thesis
      using commit_adds_only_staged_keys [of ?c'] by blast
  qed
  from ret gone assms show ?thesis
    using to_del_foldl_delete_staged [of c ks]
    by (simp add: foldl_delete_staged_trans_dict foldl_delete_staged_fields
        committed_key_staged_for_delete to_del_foldl_delete_staged_exact)
qed

lemma staged_delete_effect_example:
  "transaction_marker (run (Column_init ''temperature'')
       [Insert [(10, 10), (20, 11), (30, 9)], Transaction, Insert [(40, 0), (50, 2)]])
   \<and> delete (run (Column_init ''temperature'')
       [Insert [(10, 10), (20, 11), (30, 9)], Transaction, Insert [(40, 0), (50, 2)]]) [40, 20, 99]
     = Returned \<lparr>name = ''temperature'', vals = [(10, 10), (20, 11), (30, 9)],
         transaction_marker = True, trans_dict = [(50, 2)], to_del = [20]\<rparr>
   \<and> commit \<lparr>name = ''temperature'', vals = [(10, 10), (20, 11), (30, 9)],
         transaction_marker = True, trans_dict = [(50, 2)], to_del = [20]\<rparr>
     = Returned \<lparr>name = ''temperature'', vals = [(10, 10), (30, 9), (50, 2)],
         transaction_marker = False, trans_dict = [], to_del = []\<rparr>"
  using staged_delete_effect
    [of "run (Column_init ''temperature'')
       [Insert [(10, 10), (20, 11), (30, 9)], Transaction, Insert [(40, 0), (50, 2)]]"
       "[40, 20, 99]"]
  by (simp add: keys_def run_def insert_col_def transaction_def Column_init_def dict_update_def
      delete_def delete_staged_def commit_def)

section \<open>Commit\<close>

lemma pop_all_distinct:
  assumes "distinct ks" and "set ks \<subseteq> set (keys d)"
  shows "pop_all d ks = (None, filter (\<lambda>p. fst p \<notin> set ks) d)"
  using assms
proof (induction ks arbitrary: d)
  case Nil
  show ?case by simp
next
  case (Cons k ks)
  have del: "AList.delete k d = filter (\<lambda>p. fst p \<noteq> k) d"
    by (auto simp: AList.delete_eq intro: filter_cong)
  have "x \<in> set (keys (AList.delete k d))" if "x \<in> set ks" for x
  proof -
    from that Cons.prems have "x \<noteq> k" and "x \<in> fst ` set d"
      by (auto simp: keys_def)
    then show ?thesis by (force simp: keys_def del)
  qed
  then have "set ks \<subseteq> set (keys (AList.delete k d))"
    by blast
  with Cons.prems Cons.IH [of "AList.delete k d"]
  have "pop_all (AList.delete k d) ks = (None, filter (\<lambda>p. fst p \<notin> set ks) (AList.delete k d))"
    by simp
  moreover have "filter (\<lambda>p. fst p \<notin> set ks) (AList.delete k d)
                 = filter (\<lambda>p. fst p \<notin> set (k # ks)) d"
    by (auto simp: del intro: filter_cong)
  ultimately show ?case using Cons.prems by simp
qed

text \<open>
  What \<open>commit\<close> does when \<open>to_del\<close> holds no key twice and only keys that are there to
  be popped: the staged inserts are merged into \<open>_vals\<close>, then the keys of \<open>to_del\<close> are
  removed, both buffers are emptied and the marker is off.
\<close>

lemma commit_applies_staged:
  assumes "distinct (to_del c)"
    and "set (to_del c) \<subseteq> set (keys (vals c)) \<union> set (keys (trans_dict c))"
  shows "commit c = Returned (c\<lparr>
           vals := filter (\<lambda>p. fst p \<notin> set (to_del c)) (dict_update (vals c) (trans_dict c)),
           trans_dict := [], to_del := [], transaction_marker := False\<rparr>)"
  using assms
  by (simp add: commit_def pop_all_distinct keys_dict_update)

text \<open>
  \<open>delete\<close>, \<open>transaction\<close> and \<open>rollback\<close> never raise.
\<close>

lemma never_raise:
  "raised (delete c ks) = None" "raised (transaction c) = None" "raised (rollback c) = None"
  by (simp_all add: delete_def transaction_def rollback_def)

text \<open>
  C2. \<open>commit\<close> is to merge \<open>trans_dict\<close> into \<open>_vals\<close>, remove the keys of \<open>to_del\<close>, empty
  both buffers and switch the marker off. \<open>to_del\<close> is a list, and \<open>delete\<close> appends a key of
  \<open>_vals\<close> each time it is asked to delete it. Here key 20 is staged twice next to staged
  inserts: \<open>commit\<close> merges the inserts, pops 20 and 30, and raises \<open>KeyError\<close> at the second
  pop of 20, before the buffers are cleared; \<open>trans_dict\<close> and \<open>to_del\<close> stay filled and the
  marker stays on.
\<close>

theorem commit_leaves_transaction_open_on_duplicate_delete:
  "commit (run (Column_init ''temperature'')
       [Insert [(10, 10), (20, 11), (30, 9)], Transaction, Insert [(40, 0), (50, 2)],
        Delete [20, 30], Delete [20]])
   = Raised (KeyError 20) \<lparr>name = ''temperature'', vals = [(10, 10), (40, 0), (50, 2)],
       transaction_marker = True, trans_dict = [(40, 0), (50, 2)], to_del = [20, 30, 20]\<rparr>"
  by (simp add: keys_def run_def insert_col_def transaction_def Column_init_def dict_update_def
      delete_def delete_staged_def commit_def)

text \<open>
  C5. \<open>commit\<close> can raise in a state that calls to the column reach: after two
  \<open>delete\<close> calls for the same key of \<open>_vals\<close> in one transaction, \<open>to_del\<close> holds the key
  twice and the second \<open>pop\<close> of \<open>commit\<close> raises \<open>KeyError\<close>.
\<close>

theorem commit_raises_after_repeated_delete:
  "commit (run (Column_init ''temperature'')
       [Insert [(10, 10)], Transaction, Delete [10], Delete [10]])
   = Raised (KeyError 10) \<lparr>name = ''temperature'', vals = [], transaction_marker = True,
       trans_dict = [], to_del = [10, 10]\<rparr>"
  by (simp add: keys_def run_def insert_col_def transaction_def Column_init_def dict_update_def
      delete_def delete_staged_def commit_def)

text \<open>
  C6. In an open transaction \<open>delete\<close> takes a staged key out of \<open>trans_dict\<close> and otherwise
  stages a key of \<open>_vals\<close> in \<open>to_del\<close>, as the lemma on \<open>delete\<close> in a transaction states
  for every column. The
  consequence that a key staged by \<open>insert\<close> and then deleted in the same transaction is
  never in \<open>_vals\<close> after \<open>commit\<close> fails once a \<open>commit\<close> has raised: here \<open>commit\<close> merges
  the staged key 40 into \<open>_vals\<close> and raises at the second pop of key 10, the transaction
  stays open, \<open>delete([40])\<close> takes 40 out of \<open>trans_dict\<close>, and 40 is a key of \<open>_vals\<close>
  after the next \<open>commit\<close>.
\<close>

theorem staged_then_deleted_key_stays_committed:
  "run (Column_init ''temperature'')
       [Insert [(10, 10)], Transaction, Insert [(40, 0)], Delete [10], Delete [10], Commit]
     = \<lparr>name = ''temperature'', vals = [(40, 0)], transaction_marker = True,
         trans_dict = [(40, 0)], to_del = [10, 10]\<rparr>
   \<and> delete \<lparr>name = ''temperature'', vals = [(40, 0)], transaction_marker = True,
         trans_dict = [(40, 0)], to_del = [10, 10]\<rparr> [40]
     = Returned \<lparr>name = ''temperature'', vals = [(40, 0)], transaction_marker = True,
         trans_dict = [], to_del = [10, 10]\<rparr>
   \<and> commit \<lparr>name = ''temperature'', vals = [(40, 0)], transaction_marker = True,
         trans_dict = [], to_del = [10, 10]\<rparr>
     = Raised (KeyError 10) \<lparr>name = ''temperature'', vals = [(40, 0)],
         transaction_marker = True, trans_dict = [], to_del = [10, 10]\<rparr>"
  by (simp add: keys_def run_def insert_col_def transaction_def Column_init_def dict_update_def
      delete_def delete_staged_def commit_def)

section \<open>Database: what \<open>__str__\<close> writes\<close>

text \<open>
  Whatever the instance dictionary holds, one round of the loop of \<open>__str__\<close>, the loop
  and the method leave every attribute as it was, except that a dictionary stored under
  \<open>_vars\<close> may be replaced by another dictionary.
\<close>

lemma vars_update_frame:
  "map_of (snd (vars_update db var)) a = map_of db a
   \<or> (a = ''_vars'' \<and> is_vars (map_of db a) \<and> is_vars (map_of (snd (vars_update db var)) a))"
  by (cases "a = ''_vars''")
     (simp_all add: vars_update_def is_vars_def update_conv' split: option.splits attr.splits)

lemma vars_loop_frame:
  "map_of (snd (vars_loop db vars)) a = map_of db a
   \<or> (a = ''_vars'' \<and> is_vars (map_of db a) \<and> is_vars (map_of (snd (vars_loop db vars)) a))"
proof (induction vars arbitrary: db)
  case Nil
  show ?case by simp
next
  case (Cons var vars)
  obtain e db1 where step: "vars_update db var = (e, db1)"
    by (cases "vars_update db var")
  show ?case
  proof (cases e)
    case None
    with step have "vars_loop db (var # vars) = vars_loop db1 vars" by simp
    with Cons [of db1] vars_update_frame [of db var a] step show ?thesis
      by auto
  next
    case (Some err)
    with step have "snd (vars_loop db (var # vars)) = db1" by simp
    with vars_update_frame [of db var a] step show ?thesis by simp
  qed
qed

lemma str_vars_frame:
  "map_of (snd (str_vars db)) a = map_of db a
   \<or> (a = ''_vars'' \<and> is_vars (map_of db a) \<and> is_vars (map_of (snd (str_vars db)) a))"
proof (cases "map_of db ''tables''")
  case None
  then show ?thesis by (simp add: str_vars_def)
next
  case (Some t)
  then show ?thesis
    using vars_loop_frame [of db _ a]
    by (cases t) (simp_all add: str_vars_def split: sum.splits option.splits attr.splits)
qed

lemma state_of_str_Database:
  "db_state_of (str_Database df_format db) = snd (str_vars db)"
  by (simp add: str_Database_def split: prod.splits option.splits attr.splits)

lemma str_frame:
  assumes "a \<noteq> ''_vars''"
  shows "map_of (db_state_of (str_Database df_format db)) a = map_of db a"
  using str_vars_frame [of db a] assms by (simp add: state_of_str_Database)

lemma str_columns:
  assumes "map_of db a = Some (ColumnAttr c)"
  shows "map_of (db_state_of (str_Database df_format db)) a = Some (ColumnAttr c)
         \<and> deref (db_state_of (str_Database df_format db)) (ValsOf a) = vals c"
proof -
  have "map_of (snd (str_vars db)) a = Some (ColumnAttr c)"
    using str_vars_frame [of db a] assms by (auto simp: is_vars_def)
  then show ?thesis
    by (simp add: state_of_str_Database deref_def)
qed

text \<open>
  When \<open>_vars\<close> is the dictionary of references, the loop enters the table names in
  order as long as they are stored as Columns, and fails at the first that is not.
\<close>

lemma is_column_iff: "is_column x \<longleftrightarrow> (\<exists>c. x = Some (ColumnAttr c))"
  by (simp add: is_column_def split: option.splits attr.splits)

lemma vars_update_column:
  assumes "map_of db ''_vars'' = Some (VarsAttr vs)" and "is_column (map_of db var)"
  shows "vars_update db var
         = (None, AList.update ''_vars'' (VarsAttr (enter_vars var vs)) db)"
  using assms by (auto simp: vars_update_def is_column_iff)

lemma vars_update_no_column:
  assumes "map_of db ''_vars'' = Some (VarsAttr vs)" and "\<not> is_column (map_of db var)"
  shows "\<exists>e. vars_update db var = (Some e, db)"
  using assms by (simp add: vars_update_def is_column_def split: option.splits attr.splits)

lemma is_column_update_vars:
  assumes "map_of db ''_vars'' = Some (VarsAttr vs)"
  shows "is_column (map_of (AList.update ''_vars'' (VarsAttr vs') db) v) = is_column (map_of db v)"
  using assms by (simp add: update_conv' is_column_def)

lemma vars_loop_writes:
  assumes "map_of db ''_vars'' = Some (VarsAttr vs)"
  shows "map_of (snd (vars_loop db ts)) ''_vars''
           = Some (VarsAttr (fold enter_vars (takeWhile (\<lambda>v. is_column (map_of db v)) ts) vs))
         \<and> (fst (vars_loop db ts) = None \<longleftrightarrow> list_all (\<lambda>v. is_column (map_of db v)) ts)"
  using assms
proof (induction ts arbitrary: db vs)
  case Nil
  then show ?case by simp
next
  case (Cons var ts)
  show ?case
  proof (cases "is_column (map_of db var)")
    case False
    from vars_update_no_column [OF Cons.prems False] obtain e
      where "vars_update db var = (Some e, db)" by blast
    with Cons.prems False show ?thesis by simp
  next
    case True
    let ?db1 = "AList.update ''_vars'' (VarsAttr (enter_vars var vs)) db"
    have step: "vars_loop db (var # ts) = vars_loop ?db1 ts"
      by (simp add: vars_update_column [OF Cons.prems True])
    have vars1: "map_of ?db1 ''_vars'' = Some (VarsAttr (enter_vars var vs))"
      by (simp add: update_conv')
    have same: "(\<lambda>v. is_column (map_of ?db1 v)) = (\<lambda>v. is_column (map_of db v))"
      by (rule ext) (rule is_column_update_vars [OF Cons.prems])
    from Cons.IH [OF vars1] True show ?thesis
      unfolding step same by simp
  qed
qed

lemma str_writes:
  assumes t: "map_of db ''tables'' = Some (TablesAttr ts)"
    and v: "map_of db ''_vars'' = Some (VarsAttr vs)"
  shows "map_of (db_state_of (str_Database df_format db)) ''_vars''
           = Some (VarsAttr (fold enter_vars (takeWhile (\<lambda>v. is_column (map_of db v)) ts) vs))"
    and "list_all (\<lambda>v. is_column (map_of db v)) ts \<Longrightarrow>
           str_Database df_format db
           = DbReturned
               (df_format (map (\<lambda>(var, r). (var, deref (db_state_of (str_Database df_format db)) r))
                  (fold enter_vars ts vs)))
               (db_state_of (str_Database df_format db))"
    and "\<not> list_all (\<lambda>v. is_column (map_of db v)) ts \<Longrightarrow>
           \<exists>e. str_Database df_format db = DbRaised e (db_state_of (str_Database df_format db))"
proof -
  from t have sv: "str_vars db = vars_loop db ts"
    by (simp add: str_vars_def)
  note w = vars_loop_writes [OF v, of ts]
  from w show first: "map_of (db_state_of (str_Database df_format db)) ''_vars''
           = Some (VarsAttr (fold enter_vars (takeWhile (\<lambda>v. is_column (map_of db v)) ts) vs))"
    by (simp add: state_of_str_Database sv)
  {
    assume all: "list_all (\<lambda>v. is_column (map_of db v)) ts"
    then have tw: "takeWhile (\<lambda>v. is_column (map_of db v)) ts = ts"
      by (simp add: takeWhile_eq_all_conv list_all_iff)
    from w all have "fst (vars_loop db ts) = None" by simp
    moreover from w tw have "map_of (snd (vars_loop db ts)) ''_vars''
        = Some (VarsAttr (fold enter_vars ts vs))" by simp
    ultimately show "str_Database df_format db
           = DbReturned
               (df_format (map (\<lambda>(var, r). (var, deref (db_state_of (str_Database df_format db)) r))
                  (fold enter_vars ts vs)))
               (db_state_of (str_Database df_format db))"
      by (cases "vars_loop db ts") (simp add: str_Database_def sv)
  }
  {
    assume "\<not> list_all (\<lambda>v. is_column (map_of db v)) ts"
    with w obtain e where "fst (vars_loop db ts) = Some e" by auto
    then show "\<exists>e. str_Database df_format db
        = DbRaised e (db_state_of (str_Database df_format db))"
      by (cases "vars_loop db ts") (simp add: str_Database_def sv)
  }
qed

text \<open>
  When a Column is stored under \<open>_vars\<close> or under \<open>tables\<close>, \<open>__str__\<close> raises and writes
  nothing.
\<close>

lemma vars_loop_shadowed:
  assumes "\<not> is_vars (map_of db ''_vars'')"
  shows "snd (vars_loop db ts) = db \<and> (fst (vars_loop db ts) = None \<longleftrightarrow> ts = [])"
  using assms
  by (cases ts) (auto simp: vars_update_def is_vars_def split: option.splits attr.splits)

lemma str_Database_shadowed:
  assumes "is_column (map_of db ''_vars'') \<or> is_column (map_of db ''tables'')"
  shows "\<exists>e. str_Database df_format db = DbRaised e db"
proof (cases "is_column (map_of db ''tables'')")
  case True
  then obtain c where "map_of db ''tables'' = Some (ColumnAttr c)"
    by (auto simp: is_column_iff)
  then have "\<exists>e. str_vars db = (Some e, db)"
    by (simp add: str_vars_def split: sum.splits option.splits attr.splits)
  then show ?thesis
    by (auto simp: str_Database_def)
next
  case False
  with assms obtain c where c: "map_of db ''_vars'' = Some (ColumnAttr c)"
    by (auto simp: is_column_iff)
  then have nv: "\<not> is_vars (map_of db ''_vars'')"
    by (simp add: is_vars_def)
  have "snd (str_vars db) = db"
    using vars_loop_shadowed [OF nv]
    by (simp add: str_vars_def split: sum.splits option.splits attr.splits)
  then obtain e where r: "str_vars db = (e, db)"
    by (cases "str_vars db") simp
  with c show ?thesis
    by (cases e) (simp_all add: str_Database_def)
qed

section \<open>Database: what the calls leave in the instance dictionary\<close>

lemma map_of_fold_update:
  "map_of (fold (\<lambda>a d. AList.update a (f a) d) ts d0) a
   = (if a \<in> set ts then Some (f a) else map_of d0 a)"
  by (induction ts arbitrary: d0) (simp_all add: update_conv')

lemma map_of_Database_init:
  "map_of (Database_init tables) a
   = (if a \<in> set tables then Some (ColumnAttr (Column_init a))
      else map_of [(''_vars'', VarsAttr []), (''tables'', TablesAttr tables)] a)"
  unfolding Database_init_def by (rule map_of_fold_update)

text \<open>
  What one call may change in the instance dictionary: \<open>transaction()\<close> on the Database
  stores the marker, a call on a column replaces that column's state, a rendering
  replaces the dictionary of references; everything else stays.
\<close>

lemma on_self_cases:
  "map_of (snd (on_self db y)) a = map_of db a
   \<or> (y = Transaction \<and> a = ''transaction_marker''
        \<and> map_of (snd (on_self db y)) a = Some (BoolAttr True))"
  by (cases y) (simp_all add: update_conv' split: option.splits)

lemma on_column_cases:
  "map_of (snd (on_column builtin db b y)) a = map_of db a
   \<or> (b = a \<and> a \<notin> set data_descriptors
        \<and> (\<exists>c. map_of db a = Some (ColumnAttr c)
              \<and> map_of (snd (on_column builtin db b y)) a
                  = Some (ColumnAttr (state_of (do_call c y)))))"
  by (cases "b = a")
     (auto simp: on_column_def getattr_db_def update_conv'
        split: option.splits attr.splits sum.splits found.splits if_splits)

lemma do_db_call_cases:
  "map_of (do_db_call builtin db x) a = map_of db a
   \<or> (x = OnSelf Transaction \<and> a = ''transaction_marker''
        \<and> map_of (do_db_call builtin db x) a = Some (BoolAttr True))
   \<or> (is_column (map_of db a) \<and> is_column (map_of (do_db_call builtin db x) a))
   \<or> (a = ''_vars'' \<and> is_vars (map_of db a) \<and> is_vars (map_of (do_db_call builtin db x) a))"
proof (cases x)
  case (OnColumn b y)
  with on_column_cases [of builtin db b y a] show ?thesis
    by (auto simp: is_column_def)
next
  case (OnSelf y)
  with on_self_cases [of db y a] show ?thesis by auto
next
  case Str
  with str_vars_frame [of db a] show ?thesis by auto
qed

lemma do_db_call_column:
  assumes "map_of db a = Some (ColumnAttr c)" and "a \<notin> set data_descriptors"
    and "\<not> (a = ''transaction_marker'' \<and> x = OnSelf Transaction)"
  shows "map_of (do_db_call builtin db x) a = Some (ColumnAttr (run c (calls_on a [x])))"
proof (cases x)
  case (OnColumn b y)
  show ?thesis
  proof (cases "b = a")
    case True
    with assms OnColumn show ?thesis
      by (simp add: on_column_def getattr_db_def update_conv' run_def)
  next
    case False
    with assms OnColumn on_column_cases [of builtin db b y a] show ?thesis
      by (simp add: run_def)
  qed
next
  case (OnSelf y)
  with assms on_self_cases [of db y a] show ?thesis
    by (auto simp: run_def)
next
  case Str
  with assms str_vars_frame [of db a] show ?thesis
    by (auto simp: is_vars_def run_def)
qed


lemma do_db_call_tables:
  assumes "map_of db ''tables'' = Some (TablesAttr ts)"
  shows "map_of (do_db_call builtin db x) ''tables'' = Some (TablesAttr ts)"
  using do_db_call_cases [of builtin db x "''tables''"] assms
  by (auto simp: is_column_def)

lemma do_db_call_vars:
  assumes "is_vars (map_of db ''_vars'')"
  shows "is_vars (map_of (do_db_call builtin db x) ''_vars'')"
  using do_db_call_cases [of builtin db x "''_vars''"] assms
  by (auto simp: is_column_def is_vars_def split: option.splits attr.splits)


lemma db_run_snoc:
  "db_run builtin db (calls @ [x]) = do_db_call builtin (db_run builtin db calls) x"
  by (simp add: db_run_def)

lemma calls_on_append: "calls_on a (xs @ ys) = calls_on a xs @ calls_on a ys"
proof (induction xs)
  case Nil
  show ?case by simp
next
  case (Cons x xs)
  then show ?case by (cases x) simp_all
qed

lemma db_run_column:
  assumes "map_of db a = Some (ColumnAttr c)" and "a \<notin> set data_descriptors"
    and "\<not> (a = ''transaction_marker'' \<and> OnSelf Transaction \<in> set calls)"
  shows "map_of (db_run builtin db calls) a = Some (ColumnAttr (run c (calls_on a calls)))"
  using assms(3)
proof (induction calls rule: rev_induct)
  case Nil
  with assms(1) show ?case by (simp add: db_run_def run_def)
next
  case (snoc x calls)
  then have before: "map_of (db_run builtin db calls) a
      = Some (ColumnAttr (run c (calls_on a calls)))"
    by auto
  from snoc.prems have "\<not> (a = ''transaction_marker'' \<and> x = OnSelf Transaction)"
    by auto
  from do_db_call_column [OF before assms(2) this, of builtin]
  show ?case
    by (simp add: db_run_snoc calls_on_append run_def)
qed


lemma db_run_tables:
  assumes "map_of db ''tables'' = Some (TablesAttr ts)"
  shows "map_of (db_run builtin db calls) ''tables'' = Some (TablesAttr ts)"
  by (induction calls rule: rev_induct)
     (simp_all add: assms db_run_def do_db_call_tables)

lemma db_run_vars:
  assumes "is_vars (map_of db ''_vars'')"
  shows "is_vars (map_of (db_run builtin db calls) ''_vars'')"
  by (induction calls rule: rev_induct)
     (simp_all add: assms db_run_def do_db_call_vars)


text \<open>
  In every state reached from a new Database, \<open>tables\<close> is the list of table names or a
  Column, and \<open>_vars\<close> is the dictionary of references or a Column.
\<close>

lemma db_run_shapes:
  "(map_of (db_run builtin (Database_init tables) calls) ''tables'' = Some (TablesAttr tables)
      \<or> is_column (map_of (db_run builtin (Database_init tables) calls) ''tables''))
   \<and> (is_vars (map_of (db_run builtin (Database_init tables) calls) ''_vars'')
      \<or> is_column (map_of (db_run builtin (Database_init tables) calls) ''_vars''))"
proof -
  let ?db = "db_run builtin (Database_init tables) calls"
  have own: "''tables'' \<notin> set data_descriptors" "''_vars'' \<notin> set data_descriptors"
    by (simp_all add: data_descriptors_def)
  have "map_of ?db ''tables'' = Some (TablesAttr tables)" if "''tables'' \<notin> set tables"
    using that by (simp add: db_run_tables map_of_Database_init)
  moreover have "is_column (map_of ?db ''tables'')" if "''tables'' \<in> set tables"
    using that own by (simp add: db_run_column map_of_Database_init is_column_def)
  moreover have "is_vars (map_of ?db ''_vars'')" if "''_vars'' \<notin> set tables"
  proof -
    from that have "is_vars (map_of (Database_init tables) ''_vars'')"
      by (simp add: map_of_Database_init is_vars_def)
    then show ?thesis by (rule db_run_vars)
  qed
  moreover have "is_column (map_of ?db ''_vars'')" if "''_vars'' \<in> set tables"
    using that own by (simp add: db_run_column map_of_Database_init is_column_def)
  ultimately show ?thesis by blast
qed

section \<open>Database: rendering and attribute lookup\<close>

text \<open>
  C10. \<open>__str__\<close> leaves every attribute of the Database other than \<open>_vars\<close> as it was, so
  \<open>tables\<close> and every owned Column with its whole state, and a reference to a column
  reads that column's \<open>_vals\<close>. The dictionary \<open>_vars\<close> itself is written. When \<open>tables\<close> is
  the list of names and \<open>_vars\<close> the dictionary of references, \<open>_vars\<close> receives, for the
  names of \<open>tables\<close> in order up to the first that is not stored as a Column, a reference
  to that column's \<open>_vals\<close>; if every name is stored as a Column, \<open>__str__\<close> returns the
  formatting of \<open>_vars\<close> read through its references, and otherwise it raises. When a
  Column is stored under \<open>_vars\<close> or \<open>tables\<close> (a table bears that name), \<open>__str__\<close> raises
  and changes nothing. Every state reached from a new Database is in one of these two
  cases.
\<close>

theorem str_writes_only_vars:
  "(a \<noteq> ''_vars''
      \<longrightarrow> map_of (db_state_of (str_Database df_format db)) a = map_of db a)
   \<and> (map_of db a = Some (ColumnAttr c)
      \<longrightarrow> map_of (db_state_of (str_Database df_format db)) a = Some (ColumnAttr c)
          \<and> deref (db_state_of (str_Database df_format db)) (ValsOf a) = vals c)
   \<and> (map_of db ''tables'' = Some (TablesAttr ts) \<and> map_of db ''_vars'' = Some (VarsAttr vs)
      \<longrightarrow> map_of (db_state_of (str_Database df_format db)) ''_vars''
            = Some (VarsAttr
                (fold enter_vars (takeWhile (\<lambda>v. is_column (map_of db v)) ts) vs))
          \<and> (list_all (\<lambda>v. is_column (map_of db v)) ts
              \<longrightarrow> str_Database df_format db
                  = DbReturned
                      (df_format (map (\<lambda>(var, r).
                          (var, deref (db_state_of (str_Database df_format db)) r))
                        (fold enter_vars ts vs)))
                      (db_state_of (str_Database df_format db)))
          \<and> (\<not> list_all (\<lambda>v. is_column (map_of db v)) ts
              \<longrightarrow> (\<exists>e. str_Database df_format db
                        = DbRaised e (db_state_of (str_Database df_format db)))))
   \<and> (is_column (map_of db ''_vars'') \<or> is_column (map_of db ''tables'')
      \<longrightarrow> (\<exists>e. str_Database df_format db = DbRaised e db))
   \<and> (map_of (db_run builtin (Database_init tables) calls) ''tables''
        = Some (TablesAttr tables)
      \<or> is_column (map_of (db_run builtin (Database_init tables) calls) ''tables''))
   \<and> (is_vars (map_of (db_run builtin (Database_init tables) calls) ''_vars'')
      \<or> is_column (map_of (db_run builtin (Database_init tables) calls) ''_vars''))"
proof (intro conjI impI)
  show "map_of (db_state_of (str_Database df_format db)) a = map_of db a" if "a \<noteq> ''_vars''"
    using that by (rule str_frame)
next
  assume "map_of db a = Some (ColumnAttr c)"
  from str_columns [OF this]
  show "map_of (db_state_of (str_Database df_format db)) a = Some (ColumnAttr c)"
    and "deref (db_state_of (str_Database df_format db)) (ValsOf a) = vals c"
    by simp_all
next
  assume "map_of db ''tables'' = Some (TablesAttr ts) \<and> map_of db ''_vars'' = Some (VarsAttr vs)"
  then show "map_of (db_state_of (str_Database df_format db)) ''_vars''
            = Some (VarsAttr
                (fold enter_vars (takeWhile (\<lambda>v. is_column (map_of db v)) ts) vs))"
    by (simp add: str_writes(1))
next
  assume "map_of db ''tables'' = Some (TablesAttr ts) \<and> map_of db ''_vars'' = Some (VarsAttr vs)"
    and "list_all (\<lambda>v. is_column (map_of db v)) ts"
  then show "str_Database df_format db
                  = DbReturned
                      (df_format (map (\<lambda>(var, r).
                          (var, deref (db_state_of (str_Database df_format db)) r))
                        (fold enter_vars ts vs)))
                      (db_state_of (str_Database df_format db))"
    using str_writes(2) [of db ts vs df_format] by blast
next
  assume "map_of db ''tables'' = Some (TablesAttr ts) \<and> map_of db ''_vars'' = Some (VarsAttr vs)"
    and "\<not> list_all (\<lambda>v. is_column (map_of db v)) ts"
  then show "\<exists>e. str_Database df_format db
                        = DbRaised e (db_state_of (str_Database df_format db))"
    using str_writes(3) [of db ts vs df_format] by blast
next
  assume "is_column (map_of db ''_vars'') \<or> is_column (map_of db ''tables'')"
  then show "\<exists>e. str_Database df_format db = DbRaised e db"
    by (rule str_Database_shadowed)
next
  show "map_of (db_run builtin (Database_init tables) calls) ''tables''
        = Some (TablesAttr tables)
      \<or> is_column (map_of (db_run builtin (Database_init tables) calls) ''tables'')"
    using db_run_shapes [of builtin tables calls] by blast
next
  show "is_vars (map_of (db_run builtin (Database_init tables) calls) ''_vars'')
      \<or> is_column (map_of (db_run builtin (Database_init tables) calls) ''_vars'')"
    using db_run_shapes [of builtin tables calls] by blast
qed

theorem str_writes_only_vars_witness:
  "''temperature'' \<noteq> ''_vars''
   \<and> map_of (db_run object_attrs (Database_init [''temperature'', ''pressure''])
         [OnColumn ''temperature'' (Insert [(10, 10)])]) ''temperature''
       = Some (ColumnAttr \<lparr>name = ''temperature'', vals = [(10, 10)],
           transaction_marker = False, trans_dict = [], to_del = []\<rparr>)
   \<and> map_of (db_run object_attrs (Database_init [''temperature'', ''pressure''])
         [OnColumn ''temperature'' (Insert [(10, 10)])]) ''tables''
       = Some (TablesAttr [''temperature'', ''pressure''])
   \<and> map_of (db_run object_attrs (Database_init [''temperature'', ''pressure''])
         [OnColumn ''temperature'' (Insert [(10, 10)])]) ''_vars''
       = Some (VarsAttr [])
   \<and> list_all (\<lambda>v. is_column (map_of (db_run object_attrs
         (Database_init [''temperature'', ''pressure''])
         [OnColumn ''temperature'' (Insert [(10, 10)])]) v)) [''temperature'', ''pressure'']
   \<and> str_Database names_only (db_run object_attrs (Database_init [''temperature'', ''pressure''])
         [OnColumn ''temperature'' (Insert [(10, 10)])])
       = DbReturned (names_only [(''temperature'', [(10, 10)]), (''pressure'', [])])
           [(''_vars'', VarsAttr [(''temperature'', ValsOf ''temperature''),
                                  (''pressure'', ValsOf ''pressure'')]),
            (''tables'', TablesAttr [''temperature'', ''pressure'']),
            (''temperature'', ColumnAttr \<lparr>name = ''temperature'', vals = [(10, 10)],
               transaction_marker = False, trans_dict = [], to_del = []\<rparr>),
            (''pressure'', ColumnAttr \<lparr>name = ''pressure'', vals = [],
               transaction_marker = False, trans_dict = [], to_del = []\<rparr>)]
   \<and> map_of (db_run object_attrs (Database_init [''temperature'', ''transaction_marker''])
         [OnSelf Transaction]) ''tables''
       = Some (TablesAttr [''temperature'', ''transaction_marker''])
   \<and> map_of (db_run object_attrs (Database_init [''temperature'', ''transaction_marker''])
         [OnSelf Transaction]) ''_vars''
       = Some (VarsAttr [])
   \<and> \<not> list_all (\<lambda>v. is_column (map_of (db_run object_attrs
         (Database_init [''temperature'', ''transaction_marker'']) [OnSelf Transaction]) v))
         [''temperature'', ''transaction_marker'']
   \<and> str_Database names_only (db_run object_attrs
         (Database_init [''temperature'', ''transaction_marker'']) [OnSelf Transaction])
       = DbRaised (AttributeError ''_vals'')
           [(''_vars'', VarsAttr [(''temperature'', ValsOf ''temperature'')]),
            (''tables'', TablesAttr [''temperature'', ''transaction_marker'']),
            (''temperature'', ColumnAttr \<lparr>name = ''temperature'', vals = [],
               transaction_marker = False, trans_dict = [], to_del = []\<rparr>),
            (''transaction_marker'', BoolAttr True)]
   \<and> is_column (map_of (Database_init [''_vars'']) ''_vars'')
   \<and> str_Database names_only (Database_init [''_vars''])
       = DbRaised (AttributeError ''update'') (Database_init [''_vars''])"
  using str_writes_only_vars [of "''temperature''" names_only
      "db_run object_attrs (Database_init [''temperature'', ''pressure''])
         [OnColumn ''temperature'' (Insert [(10, 10)])]"
      "\<lparr>name = ''temperature'', vals = [(10, 10)],
           transaction_marker = False, trans_dict = [], to_del = []\<rparr>"
      "[''temperature'', ''pressure'']" "[]" object_attrs "[''temperature'', ''pressure'']"
      "[OnColumn ''temperature'' (Insert [(10, 10)])]"]
    str_writes_only_vars [of "''temperature''" names_only
      "db_run object_attrs (Database_init [''temperature'', ''transaction_marker''])
         [OnSelf Transaction]"
      "\<lparr>name = ''temperature'', vals = [],
           transaction_marker = False, trans_dict = [], to_del = []\<rparr>"
      "[''temperature'', ''transaction_marker'']" "[]" object_attrs
      "[''temperature'', ''transaction_marker'']" "[OnSelf Transaction]"]
    str_writes_only_vars [of "''_vars''" names_only "Database_init [''_vars'']"
      "Column_init ''_vars''" "[]" "[]" object_attrs "[''_vars'']" "[]"]
  by (simp add: str_Database_def str_vars_def vars_update_def Database_init_def db_run_def
      on_column_def getattr_db_def data_descriptors_def is_column_def deref_def
      enter_vars_def run_def insert_col_def Column_init_def dict_update_def keys_def)

text \<open>
  Rendering a new Database with one table changes its state: \<open>_vars\<close> was empty and now
  holds the table's entry.
\<close>

theorem str_changes_vars_counterexample:
  "db_state_of (str_Database names_only (Database_init [''temperature'']))
   \<noteq> Database_init [''temperature'']"
  by (simp add: str_Database_def str_vars_def vars_update_def Database_init_def enter_vars_def)




end
